theory Spec2Isabelle
  imports Main "HOL-Library.Sublist"
begin

section \<open>Strings as the script uses them\<close>

text \<open>
  The script \<^verbatim>\<open>scripts/remove-debug-logs.py\<close> works on Python \<^verbatim>\<open>str\<close> values.
  A line is modelled as a \<^typ>\<open>string\<close>, one \<^typ>\<open>char\<close> per code point below 256.
  \<^verbatim>\<open>str.strip()\<close> and \<^verbatim>\<open>str.rstrip()\<close> without argument remove the characters for which
  \<^verbatim>\<open>str.isspace()\<close> holds; below 256 these are the code points 9 to 13, 28 to 32,
  133 and 160.
\<close>

definition isspace :: "char \<Rightarrow> bool" where
  "isspace c = (c \<in> set [CHR 0x09, CHR 0x0A, CHR 0x0B, CHR 0x0C, CHR 0x0D,
                          CHR 0x1C, CHR 0x1D, CHR 0x1E, CHR 0x1F, CHR 0x20,
                          CHR 0x85, CHR 0xA0])"

definition lstrip :: "string \<Rightarrow> string" where
  "lstrip s = dropWhile isspace s"

definition rstrip :: "string \<Rightarrow> string" where
  "rstrip s = rev (dropWhile isspace (rev s))"

definition strip :: "string \<Rightarrow> string" where
  "strip s = rstrip (lstrip s)"

text \<open>\<^verbatim>\<open>s.startswith(p)\<close>, \<^verbatim>\<open>s.endswith(p)\<close> and \<^verbatim>\<open>p in s\<close>.\<close>

definition startswith :: "string \<Rightarrow> string \<Rightarrow> bool" where
  "startswith s p = prefix p s"

definition endswith :: "string \<Rightarrow> string \<Rightarrow> bool" where
  "endswith s p = suffix p s"

definition contains :: "string \<Rightarrow> string \<Rightarrow> bool" where
  "contains s p = sublist p s"

text \<open>
  \<^verbatim>\<open>content.split('\n')\<close> and \<^verbatim>\<open>'\n'.join(result)\<close>. The split reads the content from
  left to right; \<open>cur\<close> is the piece read since the last newline.
\<close>

definition newline :: char where
  "newline = CHR 0x0A"

fun split_from :: "string \<Rightarrow> string \<Rightarrow> string list" where
  "split_from cur [] = [cur]"
| "split_from cur (c # cs) =
     (if c = newline then cur # split_from [] cs else split_from (cur @ [c]) cs)"

definition split_lines :: "string \<Rightarrow> string list" where
  "split_lines content = split_from [] content"

fun join_lines :: "string list \<Rightarrow> string" where
  "join_lines [] = []"
| "join_lines [l] = l"
| "join_lines (l # m # ls) = l @ newline # join_lines (m # ls)"

section \<open>The fixed vocabulary\<close>

definition debug_marker :: string where
  "debug_marker = ''.Debug(''"

definition with_fields_opener :: string where
  "with_fields_opener = ''.WithFields(log.Fields{''"

definition with_field_opener :: string where
  "with_field_opener = ''.WithField(''"

definition comment_marker :: string where
  "comment_marker = ''//''"

definition close_paren :: string where
  "close_paren = '')''"

definition close_brace_paren :: string where
  "close_brace_paren = ''})''"

definition close_brace :: string where
  "close_brace = ''}''"

definition quote_char :: string where
  "quote_char = [CHR 0x22]"

section \<open>The loops of \<^verbatim>\<open>remove_debug_logs\<close>\<close>

text \<open>
  Lines 31 to 35, the scan of a multi-line direct call. The cursor \<open>i\<close> moves to just
  after the first line from \<open>i\<close> on that ends with a closing parenthesis, or to the end
  of the input when there is none. The result is the cursor after the loop.
\<close>

function skip_to_close :: "string list \<Rightarrow> nat \<Rightarrow> nat" where
  "skip_to_close lines i =
     (if i < length lines then
        (if endswith (rstrip (lines ! i)) close_paren then i + 1
         else skip_to_close lines (i + 1))
      else i)"
  by pat_completeness auto
termination
  by (relation "measure (\<lambda>(lines, i). length lines - i)") auto

declare skip_to_close.simps [simp del]

text \<open>
  Lines 60 to 64, the scan for the end of a multi-line debug call inside the lookahead.
  It assigns \<open>i = j + 1\<close> at the first line from \<open>j\<close> on that ends with a closing
  parenthesis; the result is that new value of \<open>i\<close>, or \<open>None\<close> when the loop reaches
  the end of the input and \<open>i\<close> is not assigned.
\<close>

function chain_close :: "string list \<Rightarrow> nat \<Rightarrow> nat option" where
  "chain_close lines j =
     (if j < length lines then
        (if endswith (rstrip (lines ! j)) close_paren then Some (j + 1)
         else chain_close lines (j + 1))
      else None)"
  by pat_completeness auto
termination
  by (relation "measure (\<lambda>(lines, j). length lines - j)") auto

declare chain_close.simps [simp del]

text \<open>
  Lines 48 to 81, the lookahead of a chain that starts at line \<open>i\<close>, scanning from
  line \<open>j\<close>. The result is the pair of \<open>has_debug\<close> and the value of the cursor \<open>i\<close>
  when the loop is left. The list \<^verbatim>\<open>lookahead\<close> of the script is only appended to
  and never read, so it is not part of the result.
\<close>

function lookahead :: "string list \<Rightarrow> nat \<Rightarrow> nat \<Rightarrow> bool \<times> nat" where
  "lookahead lines i j =
     (if j < length lines then
        (if contains (lines ! j) debug_marker then
           (if endswith (rstrip (lines ! j)) close_paren then (True, j + 1)
            else (case chain_close lines (j + 1) of
                    Some i' \<Rightarrow> (True, i')
                  | None \<Rightarrow> (True, i)))
         else if startswith (strip (lines ! j)) close_brace_paren
                 \<and> \<not> contains (lines ! j) debug_marker then (False, i)
         else if strip (lines ! j) = close_brace_paren then lookahead lines i (j + 1)
         else if startswith (strip (lines ! j)) quote_char
                 \<and> \<not> contains (lines ! j) debug_marker then lookahead lines i (j + 1)
         else if \<not> (startswith (strip (lines ! j)) quote_char
                     \<or> strip (lines ! j) = close_brace
                     \<or> startswith (strip (lines ! j)) close_brace_paren) then (False, i)
         else lookahead lines i (j + 1))
      else (False, i))"
  by pat_completeness auto
termination
  by (relation "measure (\<lambda>(lines, i, j). length lines - j)") auto

declare lookahead.simps [simp del]

text \<open>
  Lines 17 to 94, the main loop, with the cursor \<open>i\<close> and the list \<open>result\<close> as its
  state. The loop has no bound that the script checks, so it is a partial function:
  \<open>None\<close> is a run that never leaves the loop.
\<close>

partial_function (option) strip_loop :: "string list \<Rightarrow> nat \<Rightarrow> string list \<Rightarrow> string list option" where
  "strip_loop lines i result =
     (if i < length lines then
        (if contains (lines ! i) debug_marker
            \<and> \<not> startswith (strip (lines ! i)) comment_marker then
           (if endswith (rstrip (lines ! i)) close_paren then strip_loop lines (i + 1) result
            else strip_loop lines (skip_to_close lines (i + 1)) result)
         else if (contains (lines ! i) with_fields_opener
                  \<or> contains (lines ! i) with_field_opener)
                 \<and> \<not> startswith (strip (lines ! i)) comment_marker then
           (if fst (lookahead lines i (i + 1))
            then strip_loop lines (snd (lookahead lines i (i + 1))) result
            else strip_loop lines (i + 1) (result @ [lines ! i]))
         else strip_loop lines (i + 1) (result @ [lines ! i]))
      else Some result)"

declare strip_loop.simps [code]

definition strip_lines :: "string list \<Rightarrow> string list option" where
  "strip_lines lines = strip_loop lines 0 []"

definition remove_debug_logs :: "string \<Rightarrow> string option" where
  "remove_debug_logs content = map_option join_lines (strip_lines (split_lines content))"

section \<open>Names for the conditions of the main loop\<close>

text \<open>The condition of line 22: the line starts a direct debug statement.\<close>

definition direct_start :: "string \<Rightarrow> bool" where
  "direct_start line =
     (contains line debug_marker \<and> \<not> startswith (strip line) comment_marker)"

text \<open>The condition of lines 39 and 40: the line starts a candidate chain.\<close>

definition chain_start :: "string \<Rightarrow> bool" where
  "chain_start line =
     ((contains line with_fields_opener \<or> contains line with_field_opener)
      \<and> \<not> startswith (strip line) comment_marker)"

text \<open>The test \<^verbatim>\<open>line.rstrip().endswith(')')\<close> of lines 24, 32, 53 and 61.\<close>

definition closes_call :: "string \<Rightarrow> bool" where
  "closes_call line = endswith (rstrip line) close_paren"

text \<open>
  A cursor position at which the main loop makes no progress: the line is a candidate
  chain, the lookahead finds the debug marker, and the cursor it hands back is the
  position of the candidate itself.
\<close>

definition stuck :: "string list \<Rightarrow> nat \<Rightarrow> bool" where
  "stuck lines i =
     (i < length lines \<and> \<not> direct_start (lines ! i) \<and> chain_start (lines ! i)
      \<and> lookahead lines i (i + 1) = (True, i))"

text \<open>
  The lines that the lookahead scans past, by lines 73 to 81: lines without the debug
  marker whose trimmed form starts with a double quote or is a single closing brace.
\<close>

definition continuation_line :: "string \<Rightarrow> bool" where
  "continuation_line line =
     (\<not> contains line debug_marker
      \<and> (startswith (strip line) quote_char \<or> strip line = close_brace))"

text \<open>
  The lines without the debug marker at which the lookahead stops, by lines 67 to 69
  and 77 to 80: every other line without the marker.
\<close>

definition non_match_line :: "string \<Rightarrow> bool" where
  "non_match_line line =
     (\<not> contains line debug_marker
      \<and> \<not> startswith (strip line) quote_char \<and> strip line \<noteq> close_brace)"

text \<open>
  Every debug call that is open at the end of its line is closed further down: after
  each line that contains the debug marker and does not end with a closing parenthesis
  there is a line that does.
\<close>

definition calls_closed :: "string list \<Rightarrow> bool" where
  "calls_closed lines =
     (\<forall>j\<in>set [0..<length lines].
        contains (lines ! j) debug_marker \<and> \<not> closes_call (lines ! j)
        \<longrightarrow> chain_close lines (j + 1) \<noteq> None)"

lemmas string_defs =
  contains_def startswith_def endswith_def strip_def rstrip_def lstrip_def isspace_def
  debug_marker_def with_fields_opener_def with_field_opener_def comment_marker_def
  close_paren_def close_brace_paren_def close_brace_def quote_char_def newline_def

section \<open>A run that never leaves the main loop\<close>

text \<open>
  Fixed point induction over the main loop: a run that returns does not start at a stuck
  position, since from there the loop body calls the loop again in the same state.
\<close>

lemma strip_loop_not_stuck:
  assumes ret: "strip_loop lines i result = Some out"
  shows "\<not> stuck lines i"
proof (rule strip_loop.raw_induct [where P = "\<lambda>l k r y. \<not> stuck l k", OF _ ret], goal_cases)
  case (1 f l k r y)
  show ?case
  proof
    assume s: "stuck l k"
    then have "f l k r = Some y"
      using "1"(2)
      by (auto simp add: stuck_def direct_start_def chain_start_def split: if_splits)
    then have "\<not> stuck l k" by (rule "1"(1))
    with s show False by simp
  qed
qed

lemma strip_loop_stuck: "stuck lines i \<Longrightarrow> strip_loop lines i result = None"
  using strip_loop_not_stuck [of lines i result]
  by (cases "strip_loop lines i result") auto

section \<open>One iteration of the main loop\<close>

text \<open>The main loop unfolded once, one lemma for each path through its body.\<close>

lemma strip_loop_end: "length lines \<le> i \<Longrightarrow> strip_loop lines i r = Some r"
  by (subst strip_loop.simps) simp

lemma strip_loop_direct_single:
  "i < length lines \<Longrightarrow> direct_start (lines ! i) \<Longrightarrow> closes_call (lines ! i)
   \<Longrightarrow> strip_loop lines i r = strip_loop lines (i + 1) r"
  by (subst strip_loop.simps) (simp add: direct_start_def closes_call_def)

lemma strip_loop_direct_multi:
  "i < length lines \<Longrightarrow> direct_start (lines ! i) \<Longrightarrow> \<not> closes_call (lines ! i)
   \<Longrightarrow> strip_loop lines i r = strip_loop lines (skip_to_close lines (i + 1)) r"
  by (subst strip_loop.simps) (simp add: direct_start_def closes_call_def)

lemma strip_loop_chain_debug:
  "i < length lines \<Longrightarrow> \<not> direct_start (lines ! i) \<Longrightarrow> chain_start (lines ! i)
   \<Longrightarrow> fst (lookahead lines i (i + 1))
   \<Longrightarrow> strip_loop lines i r = strip_loop lines (snd (lookahead lines i (i + 1))) r"
  by (subst strip_loop.simps) (auto simp add: direct_start_def chain_start_def)

lemma strip_loop_chain_keep:
  "i < length lines \<Longrightarrow> \<not> direct_start (lines ! i) \<Longrightarrow> chain_start (lines ! i)
   \<Longrightarrow> \<not> fst (lookahead lines i (i + 1))
   \<Longrightarrow> strip_loop lines i r = strip_loop lines (i + 1) (r @ [lines ! i])"
  by (subst strip_loop.simps) (auto simp add: direct_start_def chain_start_def)

lemma strip_loop_normal:
  "i < length lines \<Longrightarrow> \<not> direct_start (lines ! i) \<Longrightarrow> \<not> chain_start (lines ! i)
   \<Longrightarrow> strip_loop lines i r = strip_loop lines (i + 1) (r @ [lines ! i])"
  by (subst strip_loop.simps) (auto simp add: direct_start_def chain_start_def)

section \<open>Where the inner loops leave the cursor\<close>

lemma skip_to_close_bounds:
  "i \<le> skip_to_close lines i \<and> skip_to_close lines i \<le> max i (length lines)"
proof (induction lines i rule: skip_to_close.induct)
  case (1 lines i)
  then show ?case by (subst (1 2) skip_to_close.simps) auto
qed

lemma chain_close_bounds:
  "chain_close lines j = Some k \<Longrightarrow> j < k \<and> k \<le> length lines"
proof (induction lines j rule: chain_close.induct)
  case (1 lines j)
  from "1.prems" show ?case
    by (subst (asm) chain_close.simps) (auto split: if_splits dest: "1.IH")
qed

lemma lookahead_cursor:
  "lookahead lines i j = (b, k) \<Longrightarrow> (\<not> b \<longrightarrow> k = i) \<and> (k = i \<or> (j < k \<and> k \<le> length lines))"
proof (induction lines i j rule: lookahead.induct)
  case (1 lines i j)
  from "1.prems" show ?case
    apply (subst (asm) lookahead.simps)
    apply (auto split: if_splits option.splits dest: chain_close_bounds "1.IH")
    done
qed


section \<open>What a run that returns has emitted\<close>

text \<open>
  By induction on the number of lines from the cursor to the end of the input: the
  result of a run from cursor \<open>i\<close> is the list emitted so far followed by a subsequence
  of the lines from \<open>i\<close> on, none of which starts a direct debug statement. A run from
  a stuck position does not return, so the cursor has moved on at every recursive call.
\<close>

lemma subseq_drop_le: "i \<le> k \<Longrightarrow> subseq (drop k xs) (drop i xs)"
proof -
  assume "i \<le> k"
  then have "drop k xs = drop (k - i) (drop i xs)" by simp
  then have "suffix (drop k xs) (drop i xs)" by (metis suffix_drop)
  then show ?thesis by (rule suffix_imp_subseq)
qed

lemma strip_loop_result:
  "strip_loop lines i r = Some out
   \<Longrightarrow> \<exists>ys. out = r @ ys \<and> subseq ys (drop i lines) \<and> (\<forall>l\<in>set ys. \<not> direct_start l)"
proof (induction "length lines - i" arbitrary: i r rule: less_induct)
  case less
  note ret = less.prems
  show ?case
  proof (cases "i < length lines")
    case False
    then have "out = r" using ret by (simp add: strip_loop_end)
    then show ?thesis by simp
  next
    case inb: True
    have later: "\<exists>ys. out = r @ ys \<and> subseq ys (drop i lines) \<and> (\<forall>l\<in>set ys. \<not> direct_start l)"
      if "i < k" and "strip_loop lines k r = Some out" for k
    proof -
      from that inb have "length lines - k < length lines - i" by simp
      from less.hyps [OF this that(2)] obtain ys
        where ys: "out = r @ ys" "subseq ys (drop k lines)" "\<forall>l\<in>set ys. \<not> direct_start l" by blast
      from that(1) have "subseq (drop k lines) (drop i lines)" by (simp add: subseq_drop_le)
      with ys(2) have "subseq ys (drop i lines)" by (rule subseq_order.trans)
      with ys show ?thesis by blast
    qed
    have keep: "\<exists>ys. out = r @ ys \<and> subseq ys (drop i lines) \<and> (\<forall>l\<in>set ys. \<not> direct_start l)"
      if nd: "\<not> direct_start (lines ! i)" and "strip_loop lines (i + 1) (r @ [lines ! i]) = Some out"
    proof -
      from inb have "length lines - (i + 1) < length lines - i" by simp
      from less.hyps [OF this that(2)] obtain ys
        where ys: "out = (r @ [lines ! i]) @ ys" "subseq ys (drop (i + 1) lines)"
          "\<forall>l\<in>set ys. \<not> direct_start l" by blast
      from ys(2) inb have "subseq (lines ! i # ys) (drop i lines)"
        by (simp add: Cons_nth_drop_Suc [symmetric])
      with ys(1,3) nd show ?thesis by (intro exI [of _ "lines ! i # ys"]) simp
    qed
    show ?thesis
    proof (cases "direct_start (lines ! i)")
      case ds: True
      show ?thesis
      proof (cases "closes_call (lines ! i)")
        case True
        with inb ds ret have "strip_loop lines (i + 1) r = Some out"
          by (simp add: strip_loop_direct_single)
        then show ?thesis by (intro later) simp_all
      next
        case False
        with inb ds ret have "strip_loop lines (skip_to_close lines (i + 1)) r = Some out"
          by (simp add: strip_loop_direct_multi)
        moreover have "i < skip_to_close lines (i + 1)"
          using skip_to_close_bounds [of "i + 1" lines] by simp
        ultimately show ?thesis by (intro later)
      qed
    next
      case nd: False
      show ?thesis
      proof (cases "chain_start (lines ! i)")
        case False
        with inb nd ret have "strip_loop lines (i + 1) (r @ [lines ! i]) = Some out"
          by (simp add: strip_loop_normal)
        with nd show ?thesis by (rule keep)
      next
        case cs: True
        obtain b k where la: "lookahead lines i (i + 1) = (b, k)" by (cases "lookahead lines i (i + 1)")
        show ?thesis
        proof (cases b)
          case False
          with inb nd cs ret la have "strip_loop lines (i + 1) (r @ [lines ! i]) = Some out"
            by (simp add: strip_loop_chain_keep)
          with nd show ?thesis by (rule keep)
        next
          case True
          with inb nd cs ret la have run: "strip_loop lines k r = Some out"
            by (simp add: strip_loop_chain_debug)
          have "k \<noteq> i"
          proof
            assume "k = i"
            with inb nd cs la True have "stuck lines i" by (simp add: stuck_def)
            then have "strip_loop lines i r = None" by (rule strip_loop_stuck)
            with ret show False by simp
          qed
          with lookahead_cursor [OF la] have "i < k" by simp
          then show ?thesis using run by (rule later)
        qed
      qed
    qed
  qed
qed

section \<open>Input without the debug marker\<close>

lemma lookahead_no_marker:
  "\<forall>l\<in>set lines. \<not> contains l debug_marker \<Longrightarrow> lookahead lines i j = (False, i)"
proof (induction lines i j rule: lookahead.induct)
  case (1 lines i j)
  then show ?case by (subst lookahead.simps) auto
qed

lemma strip_loop_no_marker:
  "\<forall>l\<in>set lines. \<not> contains l debug_marker \<Longrightarrow> strip_loop lines i r = Some (r @ drop i lines)"
proof (induction "length lines - i" arbitrary: i r rule: less_induct)
  case less
  show ?case
  proof (cases "i < length lines")
    case False
    then show ?thesis by (simp add: strip_loop_end)
  next
    case True
    then have nd: "\<not> direct_start (lines ! i)" using less.prems by (simp add: direct_start_def)
    have "strip_loop lines i r = strip_loop lines (i + 1) (r @ [lines ! i])"
      using True nd less.prems
      by (cases "chain_start (lines ! i)")
         (simp_all add: strip_loop_normal strip_loop_chain_keep lookahead_no_marker)
    also have "\<dots> = Some ((r @ [lines ! i]) @ drop (i + 1) lines)"
      using True less.prems by (intro less.hyps) simp_all
    also have "(r @ [lines ! i]) @ drop (i + 1) lines = r @ drop i lines"
      using True by (simp add: Cons_nth_drop_Suc)
    finally show ?thesis .
  qed
qed

section \<open>The lookahead and the scans, line by line\<close>

lemma quote_not_close_brace_paren:
  "startswith s quote_char \<Longrightarrow> \<not> startswith s close_brace_paren"
  by (cases s) (auto simp add: startswith_def quote_char_def close_brace_paren_def)

lemma close_brace_not_close_brace_paren:
  "\<not> startswith close_brace close_brace_paren" "close_brace \<noteq> close_brace_paren"
  by (simp_all add: startswith_def close_brace_def close_brace_paren_def)

lemma startswith_self: "startswith s s"
  by (simp add: startswith_def)

lemma lookahead_end: "length lines \<le> j \<Longrightarrow> lookahead lines i j = (False, i)"
  by (subst lookahead.simps) simp

lemma lookahead_continuation:
  "j < length lines \<Longrightarrow> continuation_line (lines ! j)
   \<Longrightarrow> lookahead lines i j = lookahead lines i (j + 1)"
  by (subst lookahead.simps)
     (auto simp add: continuation_line_def quote_not_close_brace_paren
        close_brace_not_close_brace_paren)

lemma lookahead_non_match:
  "j < length lines \<Longrightarrow> non_match_line (lines ! j) \<Longrightarrow> lookahead lines i j = (False, i)"
  by (subst lookahead.simps) (auto simp add: non_match_line_def startswith_self)

lemma lookahead_close_brace_paren:
  "j < length lines \<Longrightarrow> \<not> contains (lines ! j) debug_marker
   \<Longrightarrow> startswith (strip (lines ! j)) close_brace_paren \<Longrightarrow> lookahead lines i j = (False, i)"
  by (subst lookahead.simps) auto

lemma lookahead_debug_single:
  "j < length lines \<Longrightarrow> contains (lines ! j) debug_marker \<Longrightarrow> closes_call (lines ! j)
   \<Longrightarrow> lookahead lines i j = (True, j + 1)"
  by (subst lookahead.simps) (simp add: closes_call_def)

lemma lookahead_debug_multi:
  "j < length lines \<Longrightarrow> contains (lines ! j) debug_marker \<Longrightarrow> \<not> closes_call (lines ! j)
   \<Longrightarrow> lookahead lines i j =
        (case chain_close lines (j + 1) of Some i' \<Rightarrow> (True, i') | None \<Rightarrow> (True, i))"
  by (subst lookahead.simps) (simp add: closes_call_def)

lemma skip_to_close_found:
  "\<forall>m\<in>set mid. \<not> closes_call m \<Longrightarrow> closes_call c
   \<Longrightarrow> skip_to_close (A @ mid @ c # B) (length A) = length A + length mid + 1"
proof (induction mid arbitrary: A)
  case Nil
  then show ?case by (subst skip_to_close.simps) (simp add: closes_call_def)
next
  case (Cons x xs)
  have "skip_to_close (A @ (x # xs) @ c # B) (length A)
          = skip_to_close ((A @ [x]) @ xs @ c # B) (length (A @ [x]))"
    using Cons.prems by (subst skip_to_close.simps) (simp add: closes_call_def)
  also have "\<dots> = length (A @ [x]) + length xs + 1"
    using Cons.prems by (intro Cons.IH) simp_all
  finally show ?case by simp
qed

lemma skip_to_close_none:
  "\<forall>m\<in>set mid. \<not> closes_call m \<Longrightarrow> skip_to_close (A @ mid) (length A) = length A + length mid"
proof (induction mid arbitrary: A)
  case Nil
  then show ?case by (subst skip_to_close.simps) simp
next
  case (Cons x xs)
  have "skip_to_close (A @ x # xs) (length A) = skip_to_close ((A @ [x]) @ xs) (length (A @ [x]))"
    using Cons.prems by (subst skip_to_close.simps) (simp add: closes_call_def)
  also have "\<dots> = length (A @ [x]) + length xs"
    using Cons.prems by (intro Cons.IH) simp_all
  finally show ?case by simp
qed

lemma chain_close_found:
  "\<forall>m\<in>set mid. \<not> closes_call m \<Longrightarrow> closes_call c
   \<Longrightarrow> chain_close (A @ mid @ c # B) (length A) = Some (length A + length mid + 1)"
proof (induction mid arbitrary: A)
  case Nil
  then show ?case by (subst chain_close.simps) (simp add: closes_call_def)
next
  case (Cons x xs)
  have "chain_close (A @ (x # xs) @ c # B) (length A)
          = chain_close ((A @ [x]) @ xs @ c # B) (length (A @ [x]))"
    using Cons.prems by (subst chain_close.simps) (simp add: closes_call_def)
  also have "\<dots> = Some (length (A @ [x]) + length xs + 1)"
    using Cons.prems by (intro Cons.IH) simp_all
  finally show ?case by simp
qed

lemma chain_close_none:
  "\<forall>m\<in>set mid. \<not> closes_call m \<Longrightarrow> chain_close (A @ mid) (length A) = None"
proof (induction mid arbitrary: A)
  case Nil
  then show ?case by (subst chain_close.simps) simp
next
  case (Cons x xs)
  have "chain_close (A @ x # xs) (length A) = chain_close ((A @ [x]) @ xs) (length (A @ [x]))"
    using Cons.prems by (subst chain_close.simps) (simp add: closes_call_def)
  also have "\<dots> = None"
    using Cons.prems by (intro Cons.IH) simp_all
  finally show ?case .
qed

lemma lookahead_continuations:
  "\<forall>l\<in>set conts. continuation_line l
   \<Longrightarrow> lookahead (A @ conts @ B) i (length A) = lookahead (A @ conts @ B) i (length A + length conts)"
proof (induction conts arbitrary: A)
  case Nil
  show ?case by simp
next
  case (Cons x xs)
  have "lookahead (A @ (x # xs) @ B) i (length A)
          = lookahead ((A @ [x]) @ xs @ B) i (length (A @ [x]))"
    using Cons.prems by (subst lookahead_continuation) simp_all
  also have "\<dots> = lookahead ((A @ [x]) @ xs @ B) i (length (A @ [x]) + length xs)"
    using Cons.prems by (intro Cons.IH) simp_all
  finally show ?case by simp
qed

section \<open>A candidate chain and the lines after it\<close>

text \<open>
  The input is written as the lines before the candidate, the candidate, the
  continuation lines that the lookahead scans past, and the line at which it stops.
\<close>

lemma lookahead_past_continuations:
  assumes "\<forall>l\<in>set conts. continuation_line l"
  shows "lookahead (pre @ cand # conts @ rest) i (length pre + 1)
           = lookahead (pre @ cand # conts @ rest) i (length pre + length conts + 1)"
  using lookahead_continuations [OF assms, of "pre @ [cand]" rest i] by simp

lemma nth_after_continuations:
  "(pre @ cand # conts @ x # rest) ! (length pre + length conts + 1) = x"
  using nth_append_length [of "pre @ cand # conts" x rest] by simp

lemma lookahead_reaches_debug_single:
  assumes "\<forall>l\<in>set conts. continuation_line l"
    and "contains dbg debug_marker" and "closes_call dbg"
  shows "lookahead (pre @ cand # conts @ dbg # post) i (length pre + 1)
           = (True, length pre + length conts + 2)"
proof -
  let ?L = "pre @ cand # conts @ dbg # post"
  let ?j = "length pre + length conts + 1"
  have nth: "?L ! ?j = dbg" by (rule nth_after_continuations)
  have "lookahead ?L i (length pre + 1) = lookahead ?L i ?j"
    using assms(1) by (rule lookahead_past_continuations)
  also have "\<dots> = (True, ?j + 1)"
  proof (rule lookahead_debug_single)
    show "?j < length ?L" by simp
    show "contains (?L ! ?j) debug_marker" unfolding nth by (rule assms(2))
    show "closes_call (?L ! ?j)" unfolding nth by (rule assms(3))
  qed
  finally show ?thesis by simp
qed

lemma lookahead_reaches_debug_multi:
  assumes "\<forall>l\<in>set conts. continuation_line l"
    and "contains dbg debug_marker" and "\<not> closes_call dbg"
  shows "lookahead (pre @ cand # conts @ dbg # rest) i (length pre + 1)
           = (case chain_close ((pre @ cand # conts @ [dbg]) @ rest)
                     (length (pre @ cand # conts @ [dbg])) of
                Some i' \<Rightarrow> (True, i') | None \<Rightarrow> (True, i))"
proof -
  let ?L = "pre @ cand # conts @ dbg # rest"
  let ?j = "length pre + length conts + 1"
  have nth: "?L ! ?j = dbg" by (rule nth_after_continuations)
  have "lookahead ?L i (length pre + 1) = lookahead ?L i ?j"
    using assms(1) by (rule lookahead_past_continuations)
  also have "\<dots> = (case chain_close ?L (?j + 1) of Some i' \<Rightarrow> (True, i') | None \<Rightarrow> (True, i))"
  proof (rule lookahead_debug_multi)
    show "?j < length ?L" by simp
    show "contains (?L ! ?j) debug_marker" unfolding nth by (rule assms(2))
    show "\<not> closes_call (?L ! ?j)" unfolding nth by (rule assms(3))
  qed
  finally show ?thesis by simp
qed

lemma chain_debug_single:
  assumes "\<not> direct_start cand" and "chain_start cand"
    and "\<forall>l\<in>set conts. continuation_line l"
    and "contains dbg debug_marker" and "closes_call dbg"
  shows "strip_loop (pre @ cand # conts @ dbg # post) (length pre) r
           = strip_loop (pre @ cand # conts @ dbg # post) (length pre + length conts + 2) r"
proof -
  let ?L = "pre @ cand # conts @ dbg # post"
  have la: "lookahead ?L (length pre) (length pre + 1) = (True, length pre + length conts + 2)"
    using assms(3-5) by (rule lookahead_reaches_debug_single)
  have "strip_loop ?L (length pre) r
          = strip_loop ?L (snd (lookahead ?L (length pre) (length pre + 1))) r"
  proof (rule strip_loop_chain_debug)
    show "length pre < length ?L" by simp
    show "\<not> direct_start (?L ! length pre)" using assms(1) by simp
    show "chain_start (?L ! length pre)" using assms(2) by simp
    show "fst (lookahead ?L (length pre) (length pre + 1))" unfolding la by simp
  qed
  then show ?thesis unfolding la by simp
qed

lemma chain_debug_multi:
  assumes "\<not> direct_start cand" and "chain_start cand"
    and "\<forall>l\<in>set conts. continuation_line l"
    and "contains dbg debug_marker" and "\<not> closes_call dbg"
    and "\<forall>m\<in>set mid. \<not> closes_call m" and "closes_call c"
  shows "strip_loop (pre @ cand # conts @ dbg # mid @ c # post) (length pre) r
           = strip_loop (pre @ cand # conts @ dbg # mid @ c # post)
               (length pre + length conts + length mid + 3) r"
proof -
  let ?L = "pre @ cand # conts @ dbg # mid @ c # post"
  have cc: "chain_close ((pre @ cand # conts @ [dbg]) @ mid @ c # post)
          (length (pre @ cand # conts @ [dbg]))
          = Some (length (pre @ cand # conts @ [dbg]) + length mid + 1)"
    using assms(6,7) by (rule chain_close_found)
  have "lookahead ?L (length pre) (length pre + 1)
          = (case chain_close ((pre @ cand # conts @ [dbg]) @ mid @ c # post)
                     (length (pre @ cand # conts @ [dbg])) of
                Some i' \<Rightarrow> (True, i') | None \<Rightarrow> (True, length pre))"
    using assms(3-5) by (rule lookahead_reaches_debug_multi)
  then have "lookahead ?L (length pre) (length pre + 1)
               = (True, length (pre @ cand # conts @ [dbg]) + length mid + 1)"
    unfolding cc by simp
  then have la: "lookahead ?L (length pre) (length pre + 1)
                   = (True, length pre + length conts + length mid + 3)"
    by simp
  have "strip_loop ?L (length pre) r
          = strip_loop ?L (snd (lookahead ?L (length pre) (length pre + 1))) r"
  proof (rule strip_loop_chain_debug)
    show "length pre < length ?L" by simp
    show "\<not> direct_start (?L ! length pre)" using assms(1) by simp
    show "chain_start (?L ! length pre)" using assms(2) by simp
    show "fst (lookahead ?L (length pre) (length pre + 1))" unfolding la by simp
  qed
  then show ?thesis unfolding la by simp
qed

lemma chain_debug_open:
  assumes "\<not> direct_start cand" and "chain_start cand"
    and "\<forall>l\<in>set conts. continuation_line l"
    and "contains dbg debug_marker" and "\<not> closes_call dbg"
    and "\<forall>m\<in>set mid. \<not> closes_call m"
  shows "stuck (pre @ cand # conts @ dbg # mid) (length pre)"
proof -
  let ?L = "pre @ cand # conts @ dbg # mid"
  have cc: "chain_close ((pre @ cand # conts @ [dbg]) @ mid) (length (pre @ cand # conts @ [dbg]))
              = None"
    using assms(6) by (rule chain_close_none)
  have "lookahead ?L (length pre) (length pre + 1)
          = (case chain_close ((pre @ cand # conts @ [dbg]) @ mid)
                     (length (pre @ cand # conts @ [dbg])) of
                Some i' \<Rightarrow> (True, i') | None \<Rightarrow> (True, length pre))"
    using assms(3-5) by (rule lookahead_reaches_debug_multi)
  then have "lookahead ?L (length pre) (length pre + 1) = (True, length pre)"
    unfolding cc by simp
  with assms(1,2) show ?thesis by (simp add: stuck_def)
qed

lemma open_chain_never_returns:
  assumes "\<not> direct_start cand" and "chain_start cand"
    and "\<forall>l\<in>set conts. continuation_line l"
    and "contains dbg debug_marker" and "\<not> closes_call dbg"
    and "\<forall>m\<in>set mid. \<not> closes_call m"
  shows "strip_loop (pre @ cand # conts @ dbg # mid) (length pre) r = None"
  using assms by (intro strip_loop_stuck chain_debug_open)

lemma chain_kept:
  assumes "\<not> direct_start cand" and "chain_start cand"
    and "\<not> fst (lookahead (pre @ cand # post) (length pre) (length pre + 1))"
  shows "strip_loop (pre @ cand # post) (length pre) r
           = strip_loop (pre @ cand # post) (length pre + 1) (r @ [cand])"
  using strip_loop_chain_keep [of "length pre" "pre @ cand # post" r] assms by simp

section \<open>Splitting and joining\<close>

lemma split_from_nonempty: "split_from cur s \<noteq> []"
  by (induction s arbitrary: cur) auto

lemma join_split_from: "join_lines (split_from cur s) = cur @ s"
proof (induction s arbitrary: cur)
  case Nil
  show ?case by simp
next
  case (Cons c cs)
  show ?case
  proof (cases "c = newline")
    case True
    obtain x xs where x: "split_from [] cs = x # xs"
      using split_from_nonempty [of "[]" cs] by (cases "split_from [] cs") auto
    have "join_lines (x # xs) = cs" using Cons.IH [of "[]"] x by simp
    with True x show ?thesis by simp
  next
    case False
    then show ?thesis using Cons.IH [of "cur @ [c]"] by simp
  qed
qed

lemma split_from_sublist: "l \<in> set (split_from cur s) \<Longrightarrow> sublist l (cur @ s)"
proof (induction s arbitrary: cur)
  case Nil
  then show ?case by simp
next
  case (Cons c cs)
  show ?case
  proof (cases "c = newline")
    case True
    with Cons.prems consider "l = cur" | "l \<in> set (split_from [] cs)" by auto
    then show ?thesis
    proof cases
      case 1
      then show ?thesis by simp
    next
      case 2
      then have "sublist l cs" using Cons.IH [of "[]"] by simp
      then obtain ps ss where "cs = ps @ l @ ss" by (auto simp: sublist_def)
      then have "cur @ c # cs = (cur @ c # ps) @ l @ ss" by simp
      then show ?thesis unfolding sublist_def by blast
    qed
  next
    case False
    with Cons.prems have "l \<in> set (split_from (cur @ [c]) cs)" by simp
    then have "sublist l ((cur @ [c]) @ cs)" by (rule Cons.IH)
    then show ?thesis by simp
  qed
qed

lemma split_lines_no_marker:
  assumes "\<not> contains content debug_marker"
  shows "\<forall>l\<in>set (split_lines content). \<not> contains l debug_marker"
proof
  fix l assume "l \<in> set (split_lines content)"
  then have sl: "sublist l content" using split_from_sublist [of l "[]" content] by (simp add: split_lines_def)
  show "\<not> contains l debug_marker"
  proof
    assume "contains l debug_marker"
    then have "sublist debug_marker l" by (simp add: contains_def)
    with sl have "sublist debug_marker content" by (meson sublist_order.order.trans)
    with assms show False by (simp add: contains_def)
  qed
qed

section \<open>Runs that return\<close>

text \<open>
  The lookahead either ends as a non-match or reaches a line with the debug marker.
  When every open debug call is closed further down, a lookahead that finds the marker
  hands back a cursor beyond the candidate, so every iteration of the main loop moves
  the cursor on and the run returns.
\<close>

lemma lookahead_step_without_marker:
  "j < length lines \<Longrightarrow> \<not> contains (lines ! j) debug_marker
   \<Longrightarrow> lookahead lines i j = (False, i) \<or> lookahead lines i j = lookahead lines i (j + 1)"
  by (subst (1 2) lookahead.simps) auto

lemma lookahead_cases:
  "lookahead lines i j = (False, i)
   \<or> (\<exists>m. j \<le> m \<and> m < length lines \<and> contains (lines ! m) debug_marker
          \<and> lookahead lines i j = lookahead lines i m)"
proof (induction "length lines - j" arbitrary: j rule: less_induct)
  case less
  show ?case
  proof (cases "j < length lines")
    case False
    then show ?thesis by (simp add: lookahead_end)
  next
    case inb: True
    show ?thesis
    proof (cases "contains (lines ! j) debug_marker")
      case True
      with inb show ?thesis by blast
    next
      case False
      with inb consider "lookahead lines i j = (False, i)"
        | "lookahead lines i j = lookahead lines i (j + 1)"
        using lookahead_step_without_marker by blast
      then show ?thesis
      proof cases
        case 1
        then show ?thesis by simp
      next
        case 2
        from inb have "length lines - (j + 1) < length lines - j" by simp
        from less.hyps [OF this] 2 show ?thesis
          by (metis Suc_eq_plus1 Suc_leD)
      qed
    qed
  qed
qed

lemma lookahead_progress:
  assumes "calls_closed lines" and "i < j" and "fst (lookahead lines i j)"
  shows "i < snd (lookahead lines i j)"
proof -
  from lookahead_cases [of lines i j] assms(3) obtain m
    where m: "j \<le> m" "m < length lines" "contains (lines ! m) debug_marker"
      "lookahead lines i j = lookahead lines i m"
    by auto
  show ?thesis
  proof (cases "closes_call (lines ! m)")
    case True
    with m assms(2) show ?thesis by (simp add: lookahead_debug_single)
  next
    case False
    with m assms(1) obtain k where k: "chain_close lines (m + 1) = Some k"
      by (auto simp add: calls_closed_def)
    then have "m + 1 < k" by (auto dest: chain_close_bounds)
    with m False k assms(2) show ?thesis by (simp add: lookahead_debug_multi)
  qed
qed

lemma strip_loop_returns:
  "calls_closed lines \<Longrightarrow> \<exists>out. strip_loop lines i r = Some out"
proof (induction "length lines - i" arbitrary: i r rule: less_induct)
  case less
  note cc = less.prems
  show ?case
  proof (cases "i < length lines")
    case False
    then show ?thesis by (simp add: strip_loop_end)
  next
    case inb: True
    have later: "\<exists>out. strip_loop lines k r' = Some out" if "i < k" for k r'
    proof -
      from that inb have "length lines - k < length lines - i" by simp
      from less.hyps [OF this cc] show ?thesis .
    qed
    show ?thesis
    proof (cases "direct_start (lines ! i)")
      case ds: True
      show ?thesis
      proof (cases "closes_call (lines ! i)")
        case True
        with inb ds later [of "i + 1" r] show ?thesis by (simp add: strip_loop_direct_single)
      next
        case False
        have "i < skip_to_close lines (i + 1)"
          using skip_to_close_bounds [of "i + 1" lines] by simp
        from later [OF this, of r] inb ds False show ?thesis
          by (simp add: strip_loop_direct_multi)
      qed
    next
      case nd: False
      show ?thesis
      proof (cases "chain_start (lines ! i)")
        case False
        with inb nd later [of "i + 1" "r @ [lines ! i]"] show ?thesis
          by (simp add: strip_loop_normal)
      next
        case cs: True
        show ?thesis
        proof (cases "fst (lookahead lines i (i + 1))")
          case False
          with inb nd cs later [of "i + 1" "r @ [lines ! i]"] show ?thesis
            by (simp add: strip_loop_chain_keep)
        next
          case True
          with cc have "i < snd (lookahead lines i (i + 1))"
            by (intro lookahead_progress) simp_all
          from later [OF this, of r] inb nd cs True show ?thesis
            by (simp add: strip_loop_chain_debug)
        qed
      qed
    qed
  qed
qed

section \<open>The claims\<close>

text \<open>
  C1. The claim is that \<^verbatim>\<open>remove_debug_logs\<close> returns on every input. On the content
  \<^verbatim>\<open>x.WithField(a).\<close>, newline, \<^verbatim>\<open>y.Debug(\<close> it does not: the lookahead finds the debug
  marker on the second line, the scan of lines 60 to 64 reaches the end of the input
  without assigning the cursor, and line 85 continues the main loop at the same cursor.
\<close>

theorem remove_debug_logs_diverges:
  "remove_debug_logs (''x.WithField(a).'' @ [newline] @ ''y.Debug('') = None"
proof -
  have "split_lines (''x.WithField(a).'' @ [newline] @ ''y.Debug('')
          = [''x.WithField(a).'', ''y.Debug('']"
    by (simp add: split_lines_def newline_def)
  moreover have "stuck [''x.WithField(a).'', ''y.Debug(''] 0"
    by code_simp
  ultimately show ?thesis
    by (simp add: remove_debug_logs_def strip_lines_def strip_loop_stuck)
qed

text \<open>
  C2, as stated, fails at its example: the line \<^verbatim>\<open>  Debug("msg")\<close> does not contain the
  marker \<^verbatim>\<open>.Debug(\<close>, the dot being on the line before, so the lookahead stops there as a
  non-match and all four lines are kept.
\<close>

theorem chain_example_kept:
  \<open>strip_lines [''a'', ''log.WithField("k", v).'', ''  Debug("msg")'', ''b'']
     = Some [''a'', ''log.WithField("k", v).'', ''  Debug("msg")'', ''b'']
   \<and> \<not> contains ''  Debug("msg")'' debug_marker\<close>
  by code_simp

text \<open>A candidate chain that leads to a debug call, on one line or over several.\<close>

lemma chain_leads_to_debug:
  assumes "\<not> direct_start cand" and "chain_start cand"
    and "\<forall>l\<in>set conts. continuation_line l"
    and "contains dbg debug_marker"
  shows "(closes_call dbg \<longrightarrow>
            strip_loop (pre @ cand # conts @ dbg # post) (length pre) r
              = strip_loop (pre @ cand # conts @ dbg # post) (length pre + length conts + 2) r)
     \<and> (\<not> closes_call dbg \<and> (\<forall>m\<in>set mid. \<not> closes_call m) \<and> closes_call c \<longrightarrow>
            strip_loop (pre @ cand # conts @ dbg # mid @ c # post) (length pre) r
              = strip_loop (pre @ cand # conts @ dbg # mid @ c # post)
                  (length pre + length conts + length mid + 3) r)"
proof (intro conjI impI)
  assume "closes_call dbg"
  with assms show "strip_loop (pre @ cand # conts @ dbg # post) (length pre) r
      = strip_loop (pre @ cand # conts @ dbg # post) (length pre + length conts + 2) r"
    by (rule chain_debug_single)
next
  assume a: "\<not> closes_call dbg \<and> (\<forall>m\<in>set mid. \<not> closes_call m) \<and> closes_call c"
  from a have "\<not> closes_call dbg" and "\<forall>m\<in>set mid. \<not> closes_call m" and "closes_call c"
    by simp_all
  with assms show "strip_loop (pre @ cand # conts @ dbg # mid @ c # post) (length pre) r
      = strip_loop (pre @ cand # conts @ dbg # mid @ c # post)
          (length pre + length conts + length mid + 3) r"
    by (rule chain_debug_multi)
qed

text \<open>
  C2, amended. With the marker \<^verbatim>\<open>.Debug(\<close> on the continuation line, the example gives
  the two lines \<^verbatim>\<open>a\<close> and \<^verbatim>\<open>b\<close>. In general, with the cursor on a candidate chain,
  followed by continuation lines and then by a line that contains the debug marker:
  when that line ends with a closing parenthesis the loop goes on just after it with
  nothing emitted, and otherwise it goes on just after the first later line that ends
  with a closing parenthesis.
\<close>

theorem chain_to_debug_removed:
  \<open>strip_lines [''a'', ''log.WithField("k", v).'', ''  .Debug("msg")'', ''b''] = Some [''a'', ''b'']
   \<and> (\<not> direct_start cand \<and> chain_start cand \<and> (\<forall>l\<in>set conts. continuation_line l)
        \<and> contains dbg debug_marker \<and> closes_call dbg \<longrightarrow>
          strip_loop (pre @ cand # conts @ dbg # post) (length pre) r
            = strip_loop (pre @ cand # conts @ dbg # post) (length pre + length conts + 2) r)
   \<and> (\<not> direct_start cand \<and> chain_start cand \<and> (\<forall>l\<in>set conts. continuation_line l)
        \<and> contains dbg debug_marker \<and> \<not> closes_call dbg
        \<and> (\<forall>m\<in>set mid. \<not> closes_call m) \<and> closes_call c \<longrightarrow>
          strip_loop (pre @ cand # conts @ dbg # mid @ c # post) (length pre) r
            = strip_loop (pre @ cand # conts @ dbg # mid @ c # post)
                (length pre + length conts + length mid + 3) r)\<close>
proof (intro conjI)
  show \<open>strip_lines [''a'', ''log.WithField("k", v).'', ''  .Debug("msg")'', ''b''] = Some [''a'', ''b'']\<close>
    by code_simp
  show "\<not> direct_start cand \<and> chain_start cand \<and> (\<forall>l\<in>set conts. continuation_line l)
        \<and> contains dbg debug_marker \<and> closes_call dbg \<longrightarrow>
          strip_loop (pre @ cand # conts @ dbg # post) (length pre) r
            = strip_loop (pre @ cand # conts @ dbg # post) (length pre + length conts + 2) r"
    using chain_leads_to_debug
      [where cand = cand and conts = conts and dbg = dbg and pre = pre and post = post and r = r]
    by blast
  show "\<not> direct_start cand \<and> chain_start cand \<and> (\<forall>l\<in>set conts. continuation_line l)
        \<and> contains dbg debug_marker \<and> \<not> closes_call dbg
        \<and> (\<forall>m\<in>set mid. \<not> closes_call m) \<and> closes_call c \<longrightarrow>
          strip_loop (pre @ cand # conts @ dbg # mid @ c # post) (length pre) r
            = strip_loop (pre @ cand # conts @ dbg # mid @ c # post)
                (length pre + length conts + length mid + 3) r"
    using chain_leads_to_debug
      [where cand = cand and conts = conts and dbg = dbg and pre = pre and post = post and r = r
         and mid = mid and c = c]
    by blast
qed

text \<open>
  The amended C2 at the cursor on the second line of the example, and at a field map
  whose closing line carries a debug call over three lines.
\<close>

theorem chain_to_debug_removed_witness:
  \<open>\<not> direct_start ''log.WithField("k", v).'' \<and> chain_start ''log.WithField("k", v).''
   \<and> contains ''  .Debug("msg")'' debug_marker
   \<and> closes_call ''  .Debug("msg")''
   \<and> strip_loop [''a'', ''log.WithField("k", v).'', ''  .Debug("msg")'', ''b''] 1 [''a'']
       = strip_loop [''a'', ''log.WithField("k", v).'', ''  .Debug("msg")'', ''b''] 3 [''a'']
   \<and> strip_lines [''a'', ''log.WithField("k", v).'', ''  .Debug("msg")'', ''b'']
       = Some [''a'', ''b'']
   \<and> \<not> direct_start ''log.WithFields(log.Fields{'' \<and> chain_start ''log.WithFields(log.Fields{''
   \<and> continuation_line ''  "k": v,''
   \<and> contains ''}).Debug("msg",'' debug_marker \<and> \<not> closes_call ''}).Debug("msg",''
   \<and> \<not> closes_call ''  x,'' \<and> closes_call ''  y)''
   \<and> strip_loop [''log.WithFields(log.Fields{'', ''  "k": v,'', ''}).Debug("msg",'',
                  ''  x,'', ''  y)'', ''b''] 0 []
       = strip_loop [''log.WithFields(log.Fields{'', ''  "k": v,'', ''}).Debug("msg",'',
                  ''  x,'', ''  y)'', ''b''] 5 []
   \<and> strip_lines [''log.WithFields(log.Fields{'', ''  "k": v,'', ''}).Debug("msg",'',
                  ''  x,'', ''  y)'', ''b''] = Some [''b'']\<close>
proof -
  have h1: \<open>\<not> direct_start ''log.WithField("k", v).''\<close>
    and h2: \<open>chain_start ''log.WithField("k", v).''\<close>
    and h3: \<open>\<forall>l\<in>set []. continuation_line l\<close>
    and h4: \<open>contains ''  .Debug("msg")'' debug_marker\<close>
    and h5: \<open>closes_call ''  .Debug("msg")''\<close>
    and g1: \<open>\<not> direct_start ''log.WithFields(log.Fields{''\<close>
    and g2: \<open>chain_start ''log.WithFields(log.Fields{''\<close>
    and g3: \<open>\<forall>l\<in>set [''  "k": v,'']. continuation_line l\<close>
    and g4: \<open>contains ''}).Debug("msg",'' debug_marker\<close>
    and g5: \<open>\<not> closes_call ''}).Debug("msg",''\<close>
    and g6: \<open>\<forall>m\<in>set [''  x,'']. \<not> closes_call m\<close>
    and g7: \<open>closes_call ''  y)''\<close>
    by code_simp+
  have s1: \<open>strip_loop [''a'', ''log.WithField("k", v).'', ''  .Debug("msg")'', ''b''] 1 [''a'']
       = strip_loop [''a'', ''log.WithField("k", v).'', ''  .Debug("msg")'', ''b''] 3 [''a'']\<close>
    using chain_to_debug_removed [where cand = \<open>''log.WithField("k", v).''\<close> and conts = \<open>[]\<close>
        and dbg = \<open>''  .Debug("msg")''\<close> and pre = \<open>[''a'']\<close> and post = \<open>[''b'']\<close>
        and r = \<open>[''a'']\<close> and mid = \<open>[]\<close> and c = \<open>[]\<close>] h1 h2 h3 h4 h5
    by (simp add: eval_nat_numeral)
  have s2: \<open>strip_loop [''log.WithFields(log.Fields{'', ''  "k": v,'', ''}).Debug("msg",'',
                  ''  x,'', ''  y)'', ''b''] 0 []
       = strip_loop [''log.WithFields(log.Fields{'', ''  "k": v,'', ''}).Debug("msg",'',
                  ''  x,'', ''  y)'', ''b''] 5 []\<close>
    using chain_to_debug_removed [where cand = \<open>''log.WithFields(log.Fields{''\<close>
        and conts = \<open>[''  "k": v,'']\<close> and dbg = \<open>''}).Debug("msg",''\<close> and pre = \<open>[]\<close>
        and mid = \<open>[''  x,'']\<close> and c = \<open>''  y)''\<close> and post = \<open>[''b'']\<close> and r = \<open>[]\<close>]
      g1 g2 g3 g4 g5 g6 g7
    by (simp add: eval_nat_numeral)
  have e1: \<open>strip_lines [''a'', ''log.WithField("k", v).'', ''  .Debug("msg")'', ''b'']
       = Some [''a'', ''b'']\<close>
    and e2: \<open>strip_lines [''log.WithFields(log.Fields{'', ''  "k": v,'', ''}).Debug("msg",'',
                  ''  x,'', ''  y)'', ''b''] = Some [''b'']\<close>
    by code_simp+
  from h1 h2 h3 h4 h5 g1 g2 g3 g4 g5 g6 g7 s1 s2 e1 e2 show ?thesis by simp
qed




text \<open>The two ways in which a candidate chain is kept.\<close>

lemma chain_without_debug:
  assumes "\<not> direct_start cand" and "chain_start cand"
  shows "(\<not> fst (lookahead (pre @ cand # post) (length pre) (length pre + 1)) \<longrightarrow>
            strip_loop (pre @ cand # post) (length pre) r
              = strip_loop (pre @ cand # post) (length pre + 1) (r @ [cand]))
     \<and> ((\<forall>l\<in>set conts. continuation_line l) \<and> non_match_line stop \<longrightarrow>
            lookahead (pre @ cand # conts @ stop # rest) (length pre) (length pre + 1)
              = (False, length pre)
            \<and> strip_loop (pre @ cand # conts @ stop # rest) (length pre) r
              = strip_loop (pre @ cand # conts @ stop # rest) (length pre + 1) (r @ [cand]))"
proof (intro conjI impI)
  assume "\<not> fst (lookahead (pre @ cand # post) (length pre) (length pre + 1))"
  with assms show "strip_loop (pre @ cand # post) (length pre) r
                     = strip_loop (pre @ cand # post) (length pre + 1) (r @ [cand])"
    by (rule chain_kept)
next
  assume a: "(\<forall>l\<in>set conts. continuation_line l) \<and> non_match_line stop"
  let ?L = "pre @ cand # conts @ stop # rest"
  let ?j = "length pre + length conts + 1"
  have nth: "?L ! ?j = stop" by (rule nth_after_continuations)
  have "lookahead ?L (length pre) (length pre + 1) = lookahead ?L (length pre) ?j"
    using a by (intro lookahead_past_continuations) simp
  also have "\<dots> = (False, length pre)"
  proof (rule lookahead_non_match)
    show "?j < length ?L" by simp
    show "non_match_line (?L ! ?j)" unfolding nth using a by simp
  qed
  finally show la: "lookahead ?L (length pre) (length pre + 1) = (False, length pre)" .
  then have "\<not> fst (lookahead (pre @ cand # conts @ stop # rest) (length pre) (length pre + 1))"
    by simp
  with assms show "strip_loop ?L (length pre) r = strip_loop ?L (length pre + 1) (r @ [cand])"
    by (rule chain_kept)
qed

text \<open>
  C4. The pass returns the four lines of the example unchanged. With the cursor on a
  candidate chain whose lookahead ends as a non-match, the candidate line is emitted
  and the loop goes on at the next line; and the lookahead ends as a non-match at the
  first line after the continuation lines that has no debug marker, does not start
  with a double quote and is not a single closing brace.
\<close>

theorem chain_to_non_debug_kept:
  \<open>strip_lines [''a'', ''log.WithField("k", v).'', ''  Info("msg")'', ''b'']
     = Some [''a'', ''log.WithField("k", v).'', ''  Info("msg")'', ''b'']
   \<and> (\<not> direct_start cand \<and> chain_start cand
        \<and> \<not> fst (lookahead (pre @ cand # post) (length pre) (length pre + 1)) \<longrightarrow>
          strip_loop (pre @ cand # post) (length pre) r
            = strip_loop (pre @ cand # post) (length pre + 1) (r @ [cand]))
   \<and> (\<not> direct_start cand \<and> chain_start cand
        \<and> (\<forall>l\<in>set conts. continuation_line l) \<and> non_match_line stop \<longrightarrow>
          lookahead (pre @ cand # conts @ stop # rest) (length pre) (length pre + 1)
            = (False, length pre)
          \<and> strip_loop (pre @ cand # conts @ stop # rest) (length pre) r
            = strip_loop (pre @ cand # conts @ stop # rest) (length pre + 1) (r @ [cand]))\<close>
proof (intro conjI)
  show \<open>strip_lines [''a'', ''log.WithField("k", v).'', ''  Info("msg")'', ''b'']
     = Some [''a'', ''log.WithField("k", v).'', ''  Info("msg")'', ''b'']\<close>
    by code_simp
  show "\<not> direct_start cand \<and> chain_start cand
        \<and> \<not> fst (lookahead (pre @ cand # post) (length pre) (length pre + 1)) \<longrightarrow>
          strip_loop (pre @ cand # post) (length pre) r
            = strip_loop (pre @ cand # post) (length pre + 1) (r @ [cand])"
    using chain_without_debug [where cand = cand and pre = pre and post = post and r = r]
    by blast
  show "\<not> direct_start cand \<and> chain_start cand
        \<and> (\<forall>l\<in>set conts. continuation_line l) \<and> non_match_line stop \<longrightarrow>
          lookahead (pre @ cand # conts @ stop # rest) (length pre) (length pre + 1)
            = (False, length pre)
          \<and> strip_loop (pre @ cand # conts @ stop # rest) (length pre) r
            = strip_loop (pre @ cand # conts @ stop # rest) (length pre + 1) (r @ [cand])"
    using chain_without_debug
      [where cand = cand and pre = pre and r = r and conts = conts and stop = stop and rest = rest]
    by blast
qed

text \<open>
  C4 at the cursor on the second line of the example.
\<close>

theorem chain_to_non_debug_kept_witness:
  \<open>\<not> direct_start ''log.WithField("k", v).'' \<and> chain_start ''log.WithField("k", v).''
   \<and> \<not> fst (lookahead ([''a''] @ ''log.WithField("k", v).'' # [''  Info("msg")'', ''b''])
               (length [''a'']) (length [''a''] + 1))
   \<and> non_match_line ''  Info("msg")''
   \<and> lookahead [''a'', ''log.WithField("k", v).'', ''  Info("msg")'', ''b''] 1 2 = (False, 1)
   \<and> strip_loop [''a'', ''log.WithField("k", v).'', ''  Info("msg")'', ''b''] 1 [''a'']
       = strip_loop [''a'', ''log.WithField("k", v).'', ''  Info("msg")'', ''b''] 2
           [''a'', ''log.WithField("k", v).'']
   \<and> strip_lines [''a'', ''log.WithField("k", v).'', ''  Info("msg")'', ''b'']
       = Some [''a'', ''log.WithField("k", v).'', ''  Info("msg")'', ''b'']\<close>
proof -
  have h1: \<open>\<not> direct_start ''log.WithField("k", v).''\<close>
    and h2: \<open>chain_start ''log.WithField("k", v).''\<close>
    and h3: \<open>\<not> fst (lookahead ([''a''] @ ''log.WithField("k", v).'' # [''  Info("msg")'', ''b''])
               (length [''a'']) (length [''a''] + 1))\<close>
    and h4: \<open>\<forall>l\<in>set []. continuation_line l\<close>
    and h5: \<open>non_match_line ''  Info("msg")''\<close>
    by code_simp+
  have s: \<open>lookahead [''a'', ''log.WithField("k", v).'', ''  Info("msg")'', ''b''] 1 2 = (False, 1)
     \<and> strip_loop [''a'', ''log.WithField("k", v).'', ''  Info("msg")'', ''b''] 1 [''a'']
       = strip_loop [''a'', ''log.WithField("k", v).'', ''  Info("msg")'', ''b''] 2
           [''a'', ''log.WithField("k", v).'']\<close>
    using chain_to_non_debug_kept [where cand = \<open>''log.WithField("k", v).''\<close> and pre = \<open>[''a'']\<close>
        and post = \<open>[''  Info("msg")'', ''b'']\<close> and conts = \<open>[]\<close>
        and stop = \<open>''  Info("msg")''\<close> and rest = \<open>[''b'']\<close> and r = \<open>[''a'']\<close>] h1 h2 h4 h5
    by (simp add: eval_nat_numeral)
  have e: \<open>strip_lines [''a'', ''log.WithField("k", v).'', ''  Info("msg")'', ''b'']
       = Some [''a'', ''log.WithField("k", v).'', ''  Info("msg")'', ''b'']\<close>
    by code_simp
  from h1 h2 h3 h5 s e show ?thesis by simp
qed

text \<open>
  C5, as stated, fails. The lookahead from the first line below stops at the third
  line, which is the closing token alone: line 67 tests it before line 70, so the
  branch of lines 70 to 72 is never taken. Scanning on from the fourth line would
  find the debug marker and remove all four lines; the pass keeps the first three.
\<close>

theorem closing_token_counterexample:
  \<open>strip ''})'' = close_brace_paren \<and> \<not> contains ''})'' debug_marker
   \<and> lookahead [''log.WithFields(log.Fields{'', ''  "k": v,'', ''})'', ''log.Debug("m")''] 0 2
       = (False, 0)
   \<and> lookahead [''log.WithFields(log.Fields{'', ''  "k": v,'', ''})'', ''log.Debug("m")''] 0 3
       = (True, 4)
   \<and> strip_lines [''log.WithFields(log.Fields{'', ''  "k": v,'', ''})'', ''log.Debug("m")'']
       = Some [''log.WithFields(log.Fields{'', ''  "k": v,'', ''})'']\<close>
  by code_simp

text \<open>
  C5, amended. In the lookahead of a candidate chain, a line without the debug marker
  whose trimmed form starts with the closing token (in particular the token alone)
  ends the lookahead as a non-match: the candidate line is emitted and the loop goes
  on at the line after the candidate.
\<close>

theorem closing_token_stops_lookahead:
  assumes "\<not> direct_start cand" and "chain_start cand"
    and "\<forall>l\<in>set conts. continuation_line l"
    and "\<not> contains tok debug_marker" and "startswith (strip tok) close_brace_paren"
  shows "lookahead (pre @ cand # conts @ tok # post) (length pre) (length pre + 1)
           = (False, length pre)
     \<and> strip_loop (pre @ cand # conts @ tok # post) (length pre) r
           = strip_loop (pre @ cand # conts @ tok # post) (length pre + 1) (r @ [cand])"
proof -
  let ?L = "pre @ cand # conts @ tok # post"
  let ?j = "length pre + length conts + 1"
  have nth: "?L ! ?j = tok" by (rule nth_after_continuations)
  have "lookahead ?L (length pre) (length pre + 1) = lookahead ?L (length pre) ?j"
    using assms(3) by (rule lookahead_past_continuations)
  also have "\<dots> = (False, length pre)"
  proof (rule lookahead_close_brace_paren)
    show "?j < length ?L" by simp
    show "\<not> contains (?L ! ?j) debug_marker" unfolding nth by (rule assms(4))
    show "startswith (strip (?L ! ?j)) close_brace_paren" unfolding nth by (rule assms(5))
  qed
  finally have la: "lookahead ?L (length pre) (length pre + 1) = (False, length pre)" .
  then have "\<not> fst (lookahead (pre @ cand # conts @ tok # post) (length pre) (length pre + 1))"
    by simp
  with assms(1,2) have "strip_loop ?L (length pre) r = strip_loop ?L (length pre + 1) (r @ [cand])"
    by (rule chain_kept)
  with la show ?thesis by simp
qed

text \<open>
  The amended C5 at a field map closed by the token alone.
\<close>

theorem closing_token_stops_lookahead_witness:
  \<open>\<not> direct_start ''log.WithFields(log.Fields{'' \<and> chain_start ''log.WithFields(log.Fields{''
   \<and> continuation_line ''  "k": v,''
   \<and> \<not> contains ''})'' debug_marker \<and> startswith (strip ''})'') close_brace_paren
   \<and> lookahead [''log.WithFields(log.Fields{'', ''  "k": v,'', ''})'', ''log.Debug("m")''] 0 1
       = (False, 0)
   \<and> strip_loop [''log.WithFields(log.Fields{'', ''  "k": v,'', ''})'', ''log.Debug("m")''] 0 []
       = strip_loop [''log.WithFields(log.Fields{'', ''  "k": v,'', ''})'', ''log.Debug("m")''] 1
           [''log.WithFields(log.Fields{'']\<close>
proof -
  have h1: \<open>\<not> direct_start ''log.WithFields(log.Fields{''\<close>
    and h2: \<open>chain_start ''log.WithFields(log.Fields{''\<close>
    and h3: \<open>\<forall>l\<in>set [''  "k": v,'']. continuation_line l\<close>
    and h4: \<open>\<not> contains ''})'' debug_marker\<close>
    and h5: \<open>startswith (strip ''})'') close_brace_paren\<close>
    by code_simp+
  from h1 h2 h3 h4 h5
    closing_token_stops_lookahead [OF h1 h2 h3 h4 h5, where pre = \<open>[]\<close>
      and post = \<open>[''log.Debug("m")'']\<close> and r = \<open>[]\<close>]
  show ?thesis by (simp add: eval_nat_numeral)
qed

text \<open>
  C6. On a list of lines none of which contains the debug marker the pass returns the
  list itself; and on a content without the marker \<^verbatim>\<open>remove_debug_logs\<close> returns the
  content itself.
\<close>

theorem no_marker_identity:
  "((\<forall>l\<in>set lines. \<not> contains l debug_marker) \<longrightarrow> strip_lines lines = Some lines)
   \<and> (\<not> contains content debug_marker \<longrightarrow> remove_debug_logs content = Some content)"
proof (intro conjI impI)
  assume "\<forall>l\<in>set lines. \<not> contains l debug_marker"
  then show "strip_lines lines = Some lines"
    using strip_loop_no_marker [of lines 0 "[]"] by (simp add: strip_lines_def)
next
  assume "\<not> contains content debug_marker"
  then have "\<forall>l\<in>set (split_lines content). \<not> contains l debug_marker"
    by (rule split_lines_no_marker)
  then have "strip_loop (split_lines content) 0 [] = Some ([] @ drop 0 (split_lines content))"
    by (rule strip_loop_no_marker)
  then show "remove_debug_logs content = Some content"
    by (simp add: remove_debug_logs_def strip_lines_def split_lines_def join_split_from)
qed

text \<open>
  C6 at two lines and at the content made of them.
\<close>

theorem no_marker_identity_witness:
  \<open>\<not> contains ''a'' debug_marker \<and> \<not> contains ''log.Info("x")'' debug_marker
   \<and> strip_lines [''a'', ''log.Info("x")''] = Some [''a'', ''log.Info("x")'']
   \<and> \<not> contains (''a'' @ [newline] @ ''log.Info("x")'') debug_marker
   \<and> remove_debug_logs (''a'' @ [newline] @ ''log.Info("x")'')
         = Some (''a'' @ [newline] @ ''log.Info("x")'')\<close>
proof -
  have h1: \<open>\<forall>l\<in>set [''a'', ''log.Info("x")'']. \<not> contains l debug_marker\<close>
    by (simp add: string_defs sublist_code)
  have h2: \<open>\<not> contains (''a'' @ [newline] @ ''log.Info("x")'') debug_marker\<close>
    by (simp add: string_defs sublist_code)
  from h1 h2
    no_marker_identity [of \<open>[''a'', ''log.Info("x")'']\<close> \<open>''a'' @ [newline] @ ''log.Info("x")''\<close>]
  show ?thesis by simp
qed

text \<open>The three extents of a direct debug statement.\<close>

lemma direct_statement_extent:
  assumes ds: "direct_start l"
  shows "(closes_call l \<longrightarrow>
            strip_loop (pre @ l # post) (length pre) r
              = strip_loop (pre @ l # post) (length pre + 1) r)
     \<and> (\<not> closes_call l \<and> (\<forall>m\<in>set mid. \<not> closes_call m) \<and> closes_call c \<longrightarrow>
            strip_loop (pre @ l # mid @ c # post) (length pre) r
              = strip_loop (pre @ l # mid @ c # post) (length pre + length mid + 2) r)
     \<and> (\<not> closes_call l \<and> (\<forall>m\<in>set mid. \<not> closes_call m) \<longrightarrow>
            strip_loop (pre @ l # mid) (length pre) r = Some r)"
proof (intro conjI impI)
  assume "closes_call l"
  with ds show "strip_loop (pre @ l # post) (length pre) r
                  = strip_loop (pre @ l # post) (length pre + 1) r"
    by (intro strip_loop_direct_single) simp_all
next
  assume a: "\<not> closes_call l \<and> (\<forall>m\<in>set mid. \<not> closes_call m) \<and> closes_call c"
  let ?L = "pre @ l # mid @ c # post"
  from a ds have "strip_loop ?L (length pre) r = strip_loop ?L (skip_to_close ?L (length pre + 1)) r"
    by (intro strip_loop_direct_multi) simp_all
  moreover from a have "skip_to_close ((pre @ [l]) @ mid @ c # post) (length (pre @ [l]))
                          = length (pre @ [l]) + length mid + 1"
    by (intro skip_to_close_found) simp_all
  ultimately show "strip_loop ?L (length pre) r = strip_loop ?L (length pre + length mid + 2) r"
    by simp
next
  assume a: "\<not> closes_call l \<and> (\<forall>m\<in>set mid. \<not> closes_call m)"
  let ?L = "pre @ l # mid"
  from a ds have "strip_loop ?L (length pre) r = strip_loop ?L (skip_to_close ?L (length pre + 1)) r"
    by (intro strip_loop_direct_multi) simp_all
  moreover from a have "skip_to_close ((pre @ [l]) @ mid) (length (pre @ [l]))
                          = length (pre @ [l]) + length mid"
    by (intro skip_to_close_none) simp_all
  ultimately show "strip_loop ?L (length pre) r = Some r"
    by (simp add: strip_loop_end)
qed

text \<open>
  C7. The multi-line call of the specification is removed whole. With the cursor on a
  line that contains the debug marker and is not a comment: when the line ends with a
  closing parenthesis after trailing whitespace is removed, the loop goes on one line
  further with nothing emitted; otherwise it goes on just after the first later line
  that ends with a closing parenthesis; and when there is no such line, the run ends
  with what was emitted before.
\<close>

theorem direct_removal_extent:
  \<open>strip_lines [''a'', ''log.Debug('', ''  "x",'', '')'', ''b''] = Some [''a'', ''b'']
   \<and> (direct_start l \<and> closes_call l \<longrightarrow>
          strip_loop (pre @ l # post) (length pre) r
            = strip_loop (pre @ l # post) (length pre + 1) r)
   \<and> (direct_start l \<and> \<not> closes_call l \<and> (\<forall>m\<in>set mid. \<not> closes_call m) \<and> closes_call c \<longrightarrow>
          strip_loop (pre @ l # mid @ c # post) (length pre) r
            = strip_loop (pre @ l # mid @ c # post) (length pre + length mid + 2) r)
   \<and> (direct_start l \<and> \<not> closes_call l \<and> (\<forall>m\<in>set mid. \<not> closes_call m) \<longrightarrow>
          strip_loop (pre @ l # mid) (length pre) r = Some r)\<close>
proof (intro conjI)
  show \<open>strip_lines [''a'', ''log.Debug('', ''  "x",'', '')'', ''b''] = Some [''a'', ''b'']\<close>
    by code_simp
  show "direct_start l \<and> closes_call l \<longrightarrow>
          strip_loop (pre @ l # post) (length pre) r
            = strip_loop (pre @ l # post) (length pre + 1) r"
    using direct_statement_extent [where l = l and pre = pre and post = post and r = r]
    by blast
  show "direct_start l \<and> \<not> closes_call l \<and> (\<forall>m\<in>set mid. \<not> closes_call m) \<and> closes_call c \<longrightarrow>
          strip_loop (pre @ l # mid @ c # post) (length pre) r
            = strip_loop (pre @ l # mid @ c # post) (length pre + length mid + 2) r"
    using direct_statement_extent
      [where l = l and pre = pre and post = post and r = r and mid = mid and c = c]
    by blast
  show "direct_start l \<and> \<not> closes_call l \<and> (\<forall>m\<in>set mid. \<not> closes_call m) \<longrightarrow>
          strip_loop (pre @ l # mid) (length pre) r = Some r"
    using direct_statement_extent
      [where l = l and pre = pre and post = post and r = r and mid = mid and c = c]
    by blast
qed

text \<open>
  C7 at a one-line call, at the multi-line call of the specification and at a call
  that is still open at the end of the input.
\<close>

theorem direct_removal_extent_witness:
  \<open>direct_start ''log.Debug("x")'' \<and> closes_call ''log.Debug("x")''
   \<and> strip_loop [''a'', ''log.Debug("x")'', ''b''] 1 [''a'']
       = strip_loop [''a'', ''log.Debug("x")'', ''b''] 2 [''a'']
   \<and> strip_lines [''a'', ''log.Debug("x")'', ''b''] = Some [''a'', ''b'']
   \<and> direct_start ''log.Debug('' \<and> \<not> closes_call ''log.Debug(''
   \<and> \<not> closes_call ''  "x",'' \<and> closes_call '')''
   \<and> strip_loop [''a'', ''log.Debug('', ''  "x",'', '')'', ''b''] 1 [''a'']
       = strip_loop [''a'', ''log.Debug('', ''  "x",'', '')'', ''b''] 4 [''a'']
   \<and> strip_lines [''a'', ''log.Debug('', ''  "x",'', '')'', ''b''] = Some [''a'', ''b'']
   \<and> strip_loop [''a'', ''log.Debug('', ''  "x",''] 1 [''a''] = Some [''a'']
   \<and> strip_lines [''a'', ''log.Debug('', ''  "x",''] = Some [''a'']\<close>
proof -
  have d1: \<open>direct_start ''log.Debug("x")''\<close> and c1: \<open>closes_call ''log.Debug("x")''\<close>
    and d2: \<open>direct_start ''log.Debug(''\<close> and c2: \<open>\<not> closes_call ''log.Debug(''\<close>
    and c3: \<open>\<forall>m\<in>set [''  "x",'']. \<not> closes_call m\<close> and c4: \<open>closes_call '')''\<close>
    by code_simp+
  have s1: \<open>strip_loop [''a'', ''log.Debug("x")'', ''b''] 1 [''a'']
              = strip_loop [''a'', ''log.Debug("x")'', ''b''] 2 [''a'']\<close>
    using direct_removal_extent [where l = \<open>''log.Debug("x")''\<close> and pre = \<open>[''a'']\<close>
        and post = \<open>[''b'']\<close> and r = \<open>[''a'']\<close> and mid = \<open>[]\<close> and c = \<open>[]\<close>] d1 c1
    by (simp add: eval_nat_numeral)
  have s2: \<open>strip_loop [''a'', ''log.Debug('', ''  "x",'', '')'', ''b''] 1 [''a'']
       = strip_loop [''a'', ''log.Debug('', ''  "x",'', '')'', ''b''] 4 [''a'']\<close>
    using direct_removal_extent [where l = \<open>''log.Debug(''\<close> and pre = \<open>[''a'']\<close>
        and mid = \<open>[''  "x",'']\<close> and c = \<open>'')''\<close> and post = \<open>[''b'']\<close> and r = \<open>[''a'']\<close>]
      d2 c2 c3 c4
    by (simp add: eval_nat_numeral)
  have s3: \<open>strip_loop [''a'', ''log.Debug('', ''  "x",''] 1 [''a''] = Some [''a'']\<close>
    using direct_removal_extent [where l = \<open>''log.Debug(''\<close> and pre = \<open>[''a'']\<close>
        and mid = \<open>[''  "x",'']\<close> and c = \<open>[]\<close> and post = \<open>[]\<close> and r = \<open>[''a'']\<close>]
      d2 c2 c3
    by (simp add: eval_nat_numeral)
  have e1: \<open>strip_lines [''a'', ''log.Debug("x")'', ''b''] = Some [''a'', ''b'']\<close>
    and e2: \<open>strip_lines [''a'', ''log.Debug('', ''  "x",'', '')'', ''b''] = Some [''a'', ''b'']\<close>
    and e3: \<open>strip_lines [''a'', ''log.Debug('', ''  "x",''] = Some [''a'']\<close>
    by code_simp+
  from d1 c1 d2 c2 c3 c4 s1 s2 s3 e1 e2 e3 show ?thesis by simp
qed

text \<open>
  C8. The output of a pass that returns is a subsequence of its input: every line of
  the output is a line of the input, whole, and the order is that of the input. When
  every open debug call is closed further down, the pass does return.
\<close>

theorem output_is_subsequence:
  "(strip_lines lines = Some out \<longrightarrow> subseq out lines)
   \<and> (calls_closed lines \<longrightarrow> (\<exists>out'. strip_lines lines = Some out' \<and> subseq out' lines))"
proof (intro conjI impI)
  assume "strip_lines lines = Some out"
  then show "subseq out lines"
    using strip_loop_result [of lines 0 "[]" out] by (auto simp add: strip_lines_def)
next
  assume "calls_closed lines"
  then obtain out' where ret: "strip_loop lines 0 [] = Some out'"
    using strip_loop_returns [of lines 0 "[]"] by blast
  then have "subseq out' lines"
    using strip_loop_result [of lines 0 "[]" out'] by auto
  with ret show "\<exists>out'. strip_lines lines = Some out' \<and> subseq out' lines"
    by (auto simp add: strip_lines_def)
qed

text \<open>
  C8 at the multi-line call of the specification.
\<close>

theorem output_is_subsequence_witness:
  \<open>calls_closed [''a'', ''log.Debug('', ''  "x",'', '')'', ''b'']
   \<and> strip_lines [''a'', ''log.Debug('', ''  "x",'', '')'', ''b''] = Some [''a'', ''b'']
   \<and> subseq [''a'', ''b''] [''a'', ''log.Debug('', ''  "x",'', '')'', ''b'']\<close>
proof -
  have c: \<open>calls_closed [''a'', ''log.Debug('', ''  "x",'', '')'', ''b'']\<close>
    and h: \<open>strip_lines [''a'', ''log.Debug('', ''  "x",'', '')'', ''b''] = Some [''a'', ''b'']\<close>
    by code_simp+
  from c h
    output_is_subsequence [of \<open>[''a'', ''log.Debug('', ''  "x",'', '')'', ''b'']\<close> \<open>[''a'', ''b'']\<close>]
  show ?thesis by blast
qed

text \<open>
  A comment line with the debug marker, met by the lookahead: the lookahead reports a
  match whether or not the call is closed further down.
\<close>

lemma lookahead_reaches_debug:
  assumes "\<forall>l\<in>set conts. continuation_line l" and "contains dbg debug_marker"
  shows "fst (lookahead (pre @ cand # conts @ dbg # rest) i (length pre + 1))"
proof (cases "closes_call dbg")
  case True
  with assms have "lookahead (pre @ cand # conts @ dbg # rest) i (length pre + 1)
                     = (True, length pre + length conts + 2)"
    by (rule lookahead_reaches_debug_single)
  then show ?thesis by (simp only: fst_conv)
next
  case False
  with assms have "lookahead (pre @ cand # conts @ dbg # rest) i (length pre + 1)
          = (case chain_close ((pre @ cand # conts @ [dbg]) @ rest)
                     (length (pre @ cand # conts @ [dbg])) of
                Some i' \<Rightarrow> (True, i') | None \<Rightarrow> (True, i))"
    by (rule lookahead_reaches_debug_multi)
  then show ?thesis
    by (cases "chain_close ((pre @ cand # conts @ [dbg]) @ rest)
                 (length (pre @ cand # conts @ [dbg]))") (simp_all only: option.case fst_conv)
qed

text \<open>
  C9. The claim is that a comment line with the debug marker, met by the lookahead of a
  candidate chain, marks the chain as a debug match and is removed together with the
  candidate line. The lookahead does report the match, always. At the example of the
  claim both lines are removed, and so are the lines from the candidate through the end
  of the call whenever the comment line or a later line ends with a closing
  parenthesis. When no such line exists, nothing is removed: the run stays in the main
  loop at the candidate, by the path of C1, as on the two lines
  \<^verbatim>\<open>x.WithField("k", v).\<close> and \<^verbatim>\<open>// y.Debug("msg",\<close>.
\<close>

theorem commented_debug_in_lookahead:
  \<open>strip_lines [''x.WithField("k", v).'', ''// y.Debug("msg")''] = Some []
   \<and> fst (lookahead [''x.WithField("k", v).'', ''// y.Debug("msg",''] 0 1)
   \<and> strip_lines [''x.WithField("k", v).'', ''// y.Debug("msg",''] = None
   \<and> (\<not> direct_start cand \<and> chain_start cand \<and> (\<forall>l\<in>set conts. continuation_line l)
        \<and> contains cmt debug_marker \<and> startswith (strip cmt) comment_marker \<longrightarrow>
          fst (lookahead (pre @ cand # conts @ cmt # post) (length pre) (length pre + 1)))
   \<and> (\<not> direct_start cand \<and> chain_start cand \<and> (\<forall>l\<in>set conts. continuation_line l)
        \<and> contains cmt debug_marker \<and> startswith (strip cmt) comment_marker
        \<and> closes_call cmt \<longrightarrow>
          strip_loop (pre @ cand # conts @ cmt # post) (length pre) r
            = strip_loop (pre @ cand # conts @ cmt # post) (length pre + length conts + 2) r)
   \<and> (\<not> direct_start cand \<and> chain_start cand \<and> (\<forall>l\<in>set conts. continuation_line l)
        \<and> contains cmt debug_marker \<and> startswith (strip cmt) comment_marker
        \<and> \<not> closes_call cmt \<and> (\<forall>m\<in>set mid. \<not> closes_call m) \<and> closes_call c \<longrightarrow>
          strip_loop (pre @ cand # conts @ cmt # mid @ c # post) (length pre) r
            = strip_loop (pre @ cand # conts @ cmt # mid @ c # post)
                (length pre + length conts + length mid + 3) r)
   \<and> (\<not> direct_start cand \<and> chain_start cand \<and> (\<forall>l\<in>set conts. continuation_line l)
        \<and> contains cmt debug_marker \<and> startswith (strip cmt) comment_marker
        \<and> \<not> closes_call cmt \<and> (\<forall>m\<in>set mid. \<not> closes_call m) \<longrightarrow>
          strip_loop (pre @ cand # conts @ cmt # mid) (length pre) r = None)\<close>
proof (intro conjI)
  show \<open>strip_lines [''x.WithField("k", v).'', ''// y.Debug("msg")''] = Some []\<close>
    by code_simp
  show \<open>fst (lookahead [''x.WithField("k", v).'', ''// y.Debug("msg",''] 0 1)\<close>
    by code_simp
  have \<open>stuck [''x.WithField("k", v).'', ''// y.Debug("msg",''] 0\<close>
    by code_simp
  then show \<open>strip_lines [''x.WithField("k", v).'', ''// y.Debug("msg",''] = None\<close>
    by (simp add: strip_lines_def strip_loop_stuck)
  show "\<not> direct_start cand \<and> chain_start cand \<and> (\<forall>l\<in>set conts. continuation_line l)
        \<and> contains cmt debug_marker \<and> startswith (strip cmt) comment_marker \<longrightarrow>
          fst (lookahead (pre @ cand # conts @ cmt # post) (length pre) (length pre + 1))"
    using lookahead_reaches_debug
      [where conts = conts and dbg = cmt and pre = pre and cand = cand and rest = post
         and i = "length pre"]
    by blast
  show "\<not> direct_start cand \<and> chain_start cand \<and> (\<forall>l\<in>set conts. continuation_line l)
        \<and> contains cmt debug_marker \<and> startswith (strip cmt) comment_marker
        \<and> closes_call cmt \<longrightarrow>
          strip_loop (pre @ cand # conts @ cmt # post) (length pre) r
            = strip_loop (pre @ cand # conts @ cmt # post) (length pre + length conts + 2) r"
    using chain_debug_single
      [where cand = cand and conts = conts and dbg = cmt and pre = pre and post = post and r = r]
    by blast
  show "\<not> direct_start cand \<and> chain_start cand \<and> (\<forall>l\<in>set conts. continuation_line l)
        \<and> contains cmt debug_marker \<and> startswith (strip cmt) comment_marker
        \<and> \<not> closes_call cmt \<and> (\<forall>m\<in>set mid. \<not> closes_call m) \<and> closes_call c \<longrightarrow>
          strip_loop (pre @ cand # conts @ cmt # mid @ c # post) (length pre) r
            = strip_loop (pre @ cand # conts @ cmt # mid @ c # post)
                (length pre + length conts + length mid + 3) r"
    using chain_debug_multi
      [where cand = cand and conts = conts and dbg = cmt and pre = pre and post = post and r = r
         and mid = mid and c = c]
    by blast
  show "\<not> direct_start cand \<and> chain_start cand \<and> (\<forall>l\<in>set conts. continuation_line l)
        \<and> contains cmt debug_marker \<and> startswith (strip cmt) comment_marker
        \<and> \<not> closes_call cmt \<and> (\<forall>m\<in>set mid. \<not> closes_call m) \<longrightarrow>
          strip_loop (pre @ cand # conts @ cmt # mid) (length pre) r = None"
    using open_chain_never_returns
      [where cand = cand and conts = conts and dbg = cmt and pre = pre and r = r and mid = mid]
    by blast
qed

text \<open>
  C9 at the cursor on the first line of the example, with the comment line closed, and
  at a comment line that is left open before the last line of the input; the comment
  line on its own is kept.
\<close>

theorem commented_debug_in_lookahead_witness:
  \<open>\<not> direct_start ''x.WithField("k", v).'' \<and> chain_start ''x.WithField("k", v).''
   \<and> contains ''// y.Debug("msg")'' debug_marker
   \<and> startswith (strip ''// y.Debug("msg")'') comment_marker
   \<and> closes_call ''// y.Debug("msg")''
   \<and> fst (lookahead [''x.WithField("k", v).'', ''// y.Debug("msg")''] 0 1)
   \<and> strip_loop [''x.WithField("k", v).'', ''// y.Debug("msg")''] 0 []
       = strip_loop [''x.WithField("k", v).'', ''// y.Debug("msg")''] 2 []
   \<and> strip_lines [''// y.Debug("msg")''] = Some [''// y.Debug("msg")'']
   \<and> contains ''// y.Debug("msg",'' debug_marker
   \<and> startswith (strip ''// y.Debug("msg",'') comment_marker
   \<and> \<not> closes_call ''// y.Debug("msg",'' \<and> \<not> closes_call ''}''
   \<and> strip_loop [''x.WithField("k", v).'', ''// y.Debug("msg",'', ''}''] 0 [] = None\<close>
proof -
  have h1: \<open>\<not> direct_start ''x.WithField("k", v).''\<close>
    and h2: \<open>chain_start ''x.WithField("k", v).''\<close>
    and h3: \<open>\<forall>l\<in>set []. continuation_line l\<close>
    and h4: \<open>contains ''// y.Debug("msg")'' debug_marker\<close>
    and h5: \<open>startswith (strip ''// y.Debug("msg")'') comment_marker\<close>
    and h6: \<open>closes_call ''// y.Debug("msg")''\<close>
    and g4: \<open>contains ''// y.Debug("msg",'' debug_marker\<close>
    and g5: \<open>startswith (strip ''// y.Debug("msg",'') comment_marker\<close>
    and g6: \<open>\<not> closes_call ''// y.Debug("msg",''\<close>
    and g7: \<open>\<forall>m\<in>set [''}'']. \<not> closes_call m\<close>
    by code_simp+
  have s: \<open>fst (lookahead [''x.WithField("k", v).'', ''// y.Debug("msg")''] 0 1)
     \<and> strip_loop [''x.WithField("k", v).'', ''// y.Debug("msg")''] 0 []
       = strip_loop [''x.WithField("k", v).'', ''// y.Debug("msg")''] 2 []\<close>
    using commented_debug_in_lookahead [where cand = \<open>''x.WithField("k", v).''\<close> and conts = \<open>[]\<close>
        and cmt = \<open>''// y.Debug("msg")''\<close> and pre = \<open>[]\<close> and post = \<open>[]\<close> and r = \<open>[]\<close>
        and mid = \<open>[]\<close> and c = \<open>[]\<close>] h1 h2 h3 h4 h5 h6
    by (simp add: eval_nat_numeral)
  have t: \<open>strip_loop [''x.WithField("k", v).'', ''// y.Debug("msg",'', ''}''] 0 [] = None\<close>
    using commented_debug_in_lookahead [where cand = \<open>''x.WithField("k", v).''\<close> and conts = \<open>[]\<close>
        and cmt = \<open>''// y.Debug("msg",''\<close> and pre = \<open>[]\<close> and post = \<open>[]\<close> and r = \<open>[]\<close>
        and mid = \<open>[''}'']\<close> and c = \<open>[]\<close>] h1 h2 h3 g4 g5 g6 g7
    by (simp add: eval_nat_numeral)
  have e2: \<open>strip_lines [''// y.Debug("msg")''] = Some [''// y.Debug("msg")'']\<close>
    by code_simp
  from h1 h2 h4 h5 h6 g4 g5 g6 g7 s t e2 show ?thesis by simp
qed

text \<open>A line that starts both a direct statement and a candidate chain.\<close>

lemma direct_step_first:
  assumes "i < length lines" and "direct_start (lines ! i)" and "chain_start (lines ! i)"
  shows "strip_loop lines i r
           = strip_loop lines
               (if closes_call (lines ! i) then i + 1 else skip_to_close lines (i + 1)) r"
  using assms by (simp add: strip_loop_direct_single strip_loop_direct_multi)

text \<open>
  C10. The one-line fluent form is dropped. With the cursor on a line that is not a
  comment and contains both the debug marker and a field-attachment opener, the loop
  takes the step of the direct rule, whatever the lookahead from that line would give.
\<close>

theorem direct_rule_precedence:
  \<open>strip_lines [''log.WithField("k", v).Debug("msg")''] = Some []
   \<and> (i < length lines \<and> direct_start (lines ! i) \<and> chain_start (lines ! i) \<longrightarrow>
          strip_loop lines i r
            = strip_loop lines
                (if closes_call (lines ! i) then i + 1 else skip_to_close lines (i + 1)) r)\<close>
proof (intro conjI)
  show \<open>strip_lines [''log.WithField("k", v).Debug("msg")''] = Some []\<close>
    by code_simp
  show "i < length lines \<and> direct_start (lines ! i) \<and> chain_start (lines ! i) \<longrightarrow>
          strip_loop lines i r
            = strip_loop lines
                (if closes_call (lines ! i) then i + 1 else skip_to_close lines (i + 1)) r"
    using direct_step_first [where i = i and lines = lines and r = r] by blast
qed

text \<open>
  C10 at the one-line fluent form followed by another line: the line is dropped
  although the lookahead from it ends as a non-match.
\<close>

theorem direct_rule_precedence_witness:
  \<open>(0::nat) < length [''log.WithField("k", v).Debug("msg")'', ''next'']
   \<and> direct_start ([''log.WithField("k", v).Debug("msg")'', ''next''] ! 0)
   \<and> chain_start ([''log.WithField("k", v).Debug("msg")'', ''next''] ! 0)
   \<and> closes_call ([''log.WithField("k", v).Debug("msg")'', ''next''] ! 0)
   \<and> lookahead [''log.WithField("k", v).Debug("msg")'', ''next''] 0 1 = (False, 0)
   \<and> strip_loop [''log.WithField("k", v).Debug("msg")'', ''next''] 0 []
       = strip_loop [''log.WithField("k", v).Debug("msg")'', ''next''] 1 []
   \<and> strip_lines [''log.WithField("k", v).Debug("msg")'', ''next''] = Some [''next'']
   \<and> strip_lines [''log.WithField("k", v).Debug("msg")''] = Some []\<close>
proof -
  let ?L = \<open>[''log.WithField("k", v).Debug("msg")'', ''next'']\<close>
  have h0: "(0::nat) < length ?L" by simp
  have h1: "direct_start (?L ! 0)" and h2: "chain_start (?L ! 0)" and h3: "closes_call (?L ! 0)"
    and la: "lookahead ?L 0 1 = (False, 0)"
    by code_simp+
  have s: "strip_loop ?L 0 [] = strip_loop ?L 1 []"
    using direct_rule_precedence [where i = 0 and lines = "?L" and r = "[]"] h0 h1 h2 h3 by simp
  have e1: "strip_lines ?L = Some [''next'']"
    and e2: \<open>strip_lines [''log.WithField("k", v).Debug("msg")''] = Some []\<close>
    by code_simp+
  from h0 h1 h2 h3 la s e1 e2 show ?thesis by blast
qed

end
